theory Spec2Isabelle
  imports Complex_Main "HOL-Library.Char_ord" "HOL-Library.List_Lexorder" "HOL-Library.Multiset"
begin

section \<open>Python and NumPy primitives used by the sources\<close>

text \<open>
  Exceptions are values. The built-in classes that the modelled code can raise are
  constructors of their own; \<open>Failure msg\<close> stands for any other subclass of
  \<open>Exception\<close> raised inside a library call (wfdb, scikit-learn), with its text.
\<close>

datatype exn = ValueError | TypeError | RuntimeError | ZeroDivisionError | Failure string

text \<open>\<open>s.startswith(p)\<close> and \<open>s.endswith(p)\<close> on strings.\<close>

definition startswith :: "string \<Rightarrow> string \<Rightarrow> bool" where
  "startswith s p = (take (length p) s = p)"

definition endswith :: "string \<Rightarrow> string \<Rightarrow> bool" where
  "endswith s p = (length p \<le> length s \<and> drop (length s - length p) s = p)"

text \<open>
  A slice bound of \<open>xs[a:b]\<close> on a sequence of length \<open>n\<close>: a negative bound counts
  from the end, and the result is clamped to \<open>0 .. n\<close>.
\<close>

definition slice_bound :: "nat \<Rightarrow> int \<Rightarrow> nat" where
  "slice_bound n i =
     (if i < 0 then (if i + int n < 0 then 0 else nat (i + int n))
      else if int n \<le> i then n else nat i)"

text \<open>\<open>xs[a:b]\<close>: the elements at positions \<open>lo, ..., hi - 1\<close>; empty when \<open>hi \<le> lo\<close>.\<close>

definition slice :: "'a list \<Rightarrow> int \<Rightarrow> int \<Rightarrow> 'a list" where
  "slice xs a b =
     (let lo = slice_bound (length xs) a; hi = slice_bound (length xs) b
      in take (hi - lo) (drop lo xs))"

text \<open>
  NumPy's \<open>xs[a:b] = v\<close> with a scalar \<open>v\<close>: every position of the slice receives
  \<open>v\<close>, the others keep their value, the length never changes.
\<close>

definition slice_assign :: "'a list \<Rightarrow> int \<Rightarrow> int \<Rightarrow> 'a \<Rightarrow> 'a list" where
  "slice_assign xs a b v =
     (let lo = slice_bound (length xs) a; hi = slice_bound (length xs) b
      in map (\<lambda>j. if lo \<le> j \<and> j < hi then v else xs ! j) [0..<length xs])"

text \<open>\<open>d.get(k, default)\<close> on a dictionary.\<close>

definition dict_get :: "('k \<rightharpoonup> 'v) \<Rightarrow> 'k \<Rightarrow> 'v \<Rightarrow> 'v" where
  "dict_get d k dflt = (case d k of None \<Rightarrow> dflt | Some v \<Rightarrow> v)"

text \<open>
  \<open>range(start, stop, step)\<close>: a zero step raises \<open>ValueError\<close>; otherwise the
  number of elements is computed as CPython does and the elements are
  \<open>start + k * step\<close>.
\<close>

definition py_range :: "int \<Rightarrow> int \<Rightarrow> int \<Rightarrow> exn + int list" where
  "py_range start stop step =
     (if step = 0 then Inl ValueError
      else if 0 < step then
        Inr (map (\<lambda>k. start + int k * step) [0..<nat ((stop - start + step - 1) div step)])
      else
        Inr (map (\<lambda>k. start + int k * step) [0..<nat ((start - stop - step - 1) div (- step))]))"

text \<open>
  \<open>np.mean\<close> of an integer array: \<open>None\<close> is the \<open>nan\<close> that NumPy returns (with a
  warning, not an exception) for an empty array. NumPy accumulates in float64; the
  quotient below is the exact one. The two agree in the comparison
  \<open>np.mean(x) >= 0.5\<close> on the arrays \<open>process_records\<close> passes, whose entries are 0 or 1:
  every partial sum is then an integer below \<open>2^53\<close> and is a float, the division is
  correctly rounded and \<open>0.5\<close> is a float. On integer arrays with entries beyond
  \<open>2^53\<close> the float sum can differ from the exact one, and nothing is stated about the
  labels of such arrays. A comparison with \<open>nan\<close> is false.
\<close>

definition np_mean :: "int list \<Rightarrow> rat option" where
  "np_mean xs = (if xs = [] then None else Some (of_int (sum_list xs) / of_nat (length xs)))"

definition mean_ge_half :: "int list \<Rightarrow> bool" where
  "mean_ge_half xs = (case np_mean xs of None \<Rightarrow> False | Some m \<Rightarrow> 1 / 2 \<le> m)"

text \<open>
  \<open>np.array(rows)\<close> on a list of 1-D arrays: rows of unequal length raise \<open>ValueError\<close>
  (NumPy 1.24 and later). An empty list gives the array of shape \<open>(0,)\<close>, which is
  represented by \<open>[]\<close>; otherwise the result has shape \<open>(len(rows), W)\<close>.
\<close>

definition np_array :: "'a list list \<Rightarrow> exn + 'a list list" where
  "np_array rows =
     (if list_all (\<lambda>r. length r = length (hd rows)) rows then Inr rows else Inl ValueError)"

text \<open>
  \<open>np.vstack(arrays)\<close>: every array is first made 2-D (\<open>np.atleast_2d\<close> turns the
  shape \<open>(0,)\<close> into \<open>(1, 0)\<close>, one row without columns), then the rows are
  concatenated; arrays whose rows differ in length raise \<open>ValueError\<close>.
\<close>

definition atleast_2d :: "'a list list \<Rightarrow> 'a list list" where
  "atleast_2d a = (if a = [] then [[]] else a)"

definition np_vstack :: "'a list list list \<Rightarrow> exn + 'a list list" where
  "np_vstack arrays =
     (let rows = concat (map atleast_2d arrays)
      in if list_all (\<lambda>r. length r = length (hd rows)) rows then Inr rows else Inl ValueError)"


section \<open>The loader module: the record catalog, the loader and the rhythm labels\<close>

text \<open>
  What the code reads from outside: the entries of a directory (in the order the
  operating system lists them), the path arithmetic of \<open>pathlib\<close>, the existence test,
  the two readers of wfdb and scikit-learn's \<open>train_test_split\<close>. They are the
  fields of an environment; \<open>'s\<close> is the type of a signal matrix.
\<close>

record annotation =
  sample :: "int list"
  aux_note :: "string list"

record 's wfdb_record =
  p_signal :: 's
  rec_fs :: int
  rec_sig_len :: int

record 's environment =
  listdir :: "string \<Rightarrow> string list"
  joinpath :: "string \<Rightarrow> string \<Rightarrow> string"
  path_exists :: "string \<Rightarrow> bool"
  rdrecord :: "string \<Rightarrow> nat list option \<Rightarrow> exn + 's wfdb_record"
  rdann :: "string \<Rightarrow> string \<Rightarrow> exn + annotation"
  train_test_split :: "string list \<Rightarrow> rat \<Rightarrow> nat \<Rightarrow> exn + (string list \<times> string list)"

text \<open>\<open>s.rfind(c)\<close>: the last position of \<open>c\<close> in \<open>s\<close>, or \<open>-1\<close>.\<close>

definition rfind :: "string \<Rightarrow> char \<Rightarrow> int" where
  "rfind s c =
     (if c \<in> set s then int (length s) - 1 - int (length (takeWhile (\<lambda>x. x \<noteq> c) (rev s)))
      else - 1)"

text \<open>
  \<open>PurePath.stem\<close> of a file name: the name up to its last dot, unless that dot is
  the first or the last character of the name.
\<close>

definition stem :: "string \<Rightarrow> string" where
  "stem name =
     (let i = rfind name (CHR ''.'')
      in if 0 < i \<and> i < int (length name) - 1 then take (nat i) name else name)"

text \<open>\<open>data_path.glob('*.hea')\<close>: the entries whose name ends in \<open>.hea\<close>.\<close>

definition glob_hea :: "'s environment \<Rightarrow> string \<Rightarrow> string list" where
  "glob_hea env data_path = filter (\<lambda>f. endswith f ''.hea'') (listdir env data_path)"

text \<open>
  \<open>AFDBDataLoader._get_records\<close> (a constant's name cannot start with an underscore):
  the stems of the header files, without those that end in \<open>-\<close>, sorted as Python
  sorts strings.
\<close>

definition get_records :: "'s environment \<Rightarrow> string \<Rightarrow> string list" where
  "get_records env data_path =
     sort (map stem (filter (\<lambda>f. \<not> endswith (stem f) ''-'') (glob_hea env data_path)))"

text \<open>
  \<open>AFDBDataLoader._get_rhythm_labels\<close>. wfdb stores the empty string for an event
  without auxiliary note, so \<open>aux and aux.startswith('(')\<close> is the test below;
  \<open>zip\<close> stops at the shorter list. \<open>np.full\<close> raises \<open>ValueError\<close> for a negative
  length. The loop runs over the positions of \<open>rhythm_changes\<close> in order;
  \<open>label_segment\<close> is one pass, at a position \<open>i\<close> of the list.
\<close>

definition rhythm_changes :: "annotation \<Rightarrow> (int \<times> string) list" where
  "rhythm_changes ann =
     filter (\<lambda>(smp, aux). aux \<noteq> [] \<and> startswith aux ''('') (zip (sample ann) (aux_note ann))"

definition rhythm_map :: "string \<rightharpoonup> string" where
  "rhythm_map =
     [''(AFIB'' \<mapsto> ''atrial_fibrillation'', ''(N'' \<mapsto> ''normal'', ''(AFL'' \<mapsto> ''atrial_flutter'']"

definition label_segment :: "(int \<times> string) list \<Rightarrow> int \<Rightarrow> nat \<Rightarrow> string list \<Rightarrow> string list" where
  "label_segment changes sig_len i labels =
     (let smp = fst (changes ! i);
          aux = snd (changes ! i);
          next_sample = (if i + 1 < length changes then fst (changes ! (i + 1)) else sig_len);
          rhythm_name = dict_get rhythm_map aux ''other''
      in slice_assign labels smp next_sample rhythm_name)"

definition get_rhythm_labels :: "annotation \<Rightarrow> int \<Rightarrow> exn + string list" where
  "get_rhythm_labels ann sig_len =
     (if sig_len < 0 then Inl ValueError
      else let labels = replicate (nat sig_len) ''unknown'';
               changes = rhythm_changes ann
           in Inr (fold (label_segment changes sig_len) [0..<length changes] labels))"

text \<open>
  The dictionary returned by \<open>AFDBDataLoader.load_record\<close>. \<open>duration\<close> is the
  quotient \<open>sig_len / fs\<close> (a float in the source, kept exact here); a zero \<open>fs\<close>
  raises \<open>ZeroDivisionError\<close>. The bare \<open>except\<close> around the annotation part catches
  every exception, also one of \<open>_get_rhythm_labels\<close>.
\<close>

record 's loaded =
  record_name :: string
  signal :: 's
  fs :: int
  sig_len :: int
  duration :: rat
  rhythm_labels :: "string list option"

definition load_record ::
  "'s environment \<Rightarrow> string \<Rightarrow> string \<Rightarrow> nat list option \<Rightarrow> exn + 's loaded" where
  "load_record env data_path name channels =
     (let record_path = joinpath env data_path name
      in case (if channels \<noteq> None \<and> channels \<noteq> Some []
               then rdrecord env record_path channels
               else rdrecord env record_path None) of
           Inl e \<Rightarrow> Inl e
         | Inr rec \<Rightarrow>
             (let labels =
                (case rdann env record_path ''atr'' of
                   Inl e \<Rightarrow> None
                 | Inr ann \<Rightarrow>
                     (case get_rhythm_labels ann (rec_sig_len rec) of
                        Inl e \<Rightarrow> None
                      | Inr ls \<Rightarrow> Some ls))
              in if rec_fs rec = 0 then Inl ZeroDivisionError
                 else Inr \<lparr>record_name = name, signal = p_signal rec, fs = rec_fs rec,
                           sig_len = rec_sig_len rec,
                           duration = of_int (rec_sig_len rec) / of_int (rec_fs rec),
                           rhythm_labels = labels\<rparr>))"


section \<open>The dataset module: windows, the record split and the per-split processing\<close>

text \<open>
  \<open>create_windows\<close>. The loop variable runs over
  \<open>range(0, len(signal) - window_size + 1, stride)\<close>; each pass slices the signal and the
  labels with Python's slice rules and appends one window and one label; the two
  \<open>np.array\<close> calls close the function (the second one, on a list of integers, cannot
  fail).
\<close>

definition create_windows ::
  "'a list \<Rightarrow> int list \<Rightarrow> int \<Rightarrow> int \<Rightarrow> exn + ('a list list \<times> int list)" where
  "create_windows sig labels window_size strd =
     (case py_range 0 (int (length sig) - window_size + 1) strd of
        Inl e \<Rightarrow> Inl e
      | Inr starts \<Rightarrow>
          (let windows = map (\<lambda>start. slice sig start (start + window_size)) starts;
               window_labels =
                 map (\<lambda>start. if mean_ge_half (slice labels start (start + window_size))
                               then 1 else 0) starts
           in case np_array windows of
                Inl e \<Rightarrow> Inl e
              | Inr ws \<Rightarrow> Inr (ws, window_labels)))"

text \<open>
  The start of \<open>build_datasets\<close>: the catalog entries with a signal file, and their
  split by \<open>train_test_split(records, test_size=test_size, random_state=42)\<close>.
\<close>

definition usable_records :: "'s environment \<Rightarrow> string \<Rightarrow> string list" where
  "usable_records env data_path =
     filter (\<lambda>r. path_exists env (joinpath env data_path (r @ ''.dat'')))
            (get_records env data_path)"

definition split_records ::
  "'s environment \<Rightarrow> string \<Rightarrow> rat \<Rightarrow> exn + (string list \<times> string list)" where
  "split_records env data_path test_size =
     train_test_split env (usable_records env data_path) test_size 42"

text \<open>
  What \<open>process_records\<close> prints: \<open>Progress record n k\<close> is the line
  \<open>{record}: {n} windows ({k} AF)\<close> and \<open>ErrorWith record e\<close> is the line
  \<open>Error with {record}: {e}\<close>.
\<close>

datatype message = Progress string nat int | ErrorWith string exn

text \<open>
  \<open>process_records\<close> loads every record with \<open>channels=[0]\<close>, so the signal matrix has
  one column; it is represented by that column. \<open>squeeze\<close> of a matrix of shape
  \<open>(1, 1)\<close> is a 0-d array, on which \<open>len\<close> (the first thing \<open>create_windows\<close>
  evaluates) raises \<open>TypeError\<close>; of any other one-column matrix it is the column.
\<close>

datatype 'a squeezed = Scalar0 'a | Array1 "'a list"

definition squeeze :: "'a list \<Rightarrow> 'a squeezed" where
  "squeeze col = (case col of [x] \<Rightarrow> Scalar0 x | _ \<Rightarrow> Array1 col)"

text \<open>
  One pass of the loop of \<open>process_records\<close> on the state
  \<open>(all_windows, all_labels, printed lines)\<close>. An exception inside the \<open>try\<close> is
  caught by \<open>except Exception\<close> and printed; the \<open>None\<close> test leaves the pass by
  \<open>continue\<close>.
\<close>

definition process_record ::
  "'a list environment \<Rightarrow> string \<Rightarrow> int \<Rightarrow> int \<Rightarrow> string \<Rightarrow>
   'a list list list \<times> int list list \<times> message list \<Rightarrow>
   'a list list list \<times> int list list \<times> message list" where
  "process_record env data_path window_size strd record st =
     (case st of (all_windows, all_labels, out) \<Rightarrow>
        (case load_record env data_path record (Some [0]) of
           Inl e \<Rightarrow> (all_windows, all_labels, out @ [ErrorWith record e])
         | Inr data \<Rightarrow>
             (let sig = squeeze (signal data)
              in case rhythm_labels data of
                   None \<Rightarrow> (all_windows, all_labels, out)
                 | Some rl \<Rightarrow>
                     (let binary_labels =
                            map (\<lambda>l. if l = ''atrial_fibrillation'' then 1 else 0) rl
                      in case (case sig of
                                 Scalar0 x \<Rightarrow> Inl TypeError
                               | Array1 s \<Rightarrow> create_windows s binary_labels window_size strd) of
                           Inl e \<Rightarrow> (all_windows, all_labels, out @ [ErrorWith record e])
                         | Inr (windows, labels) \<Rightarrow>
                             (all_windows @ [windows], all_labels @ [labels],
                              out @ [Progress record (length windows) (sum_list labels)])))))"

text \<open>
  \<open>process_records\<close>: the loop, then the stacking, which is outside every \<open>try\<close>.
  The result is the printed lines and either the exception of \<open>np.vstack\<close> or the pair
  of arrays.
\<close>

definition process_records ::
  "'a list environment \<Rightarrow> string \<Rightarrow> int \<Rightarrow> int \<Rightarrow> string list \<Rightarrow>
   message list \<times> (exn + ('a list list \<times> int list))" where
  "process_records env data_path window_size strd record_list =
     (case fold (process_record env data_path window_size strd) record_list ([], [], []) of
        (all_windows, all_labels, out) \<Rightarrow>
          (out,
           if all_windows \<noteq> [] then
             (case np_vstack all_windows of
                Inl e \<Rightarrow> Inl e
              | Inr X \<Rightarrow> Inr (X, concat all_labels))
           else Inr ([], [])))"


section \<open>The model module: the shapes through the network\<close>

text \<open>
  A batch is given by its shape \<open>(batch, channels, length)\<close>. Each layer is the
  function from the shape of its input to the shape of its output, or to the exception
  PyTorch raises; the tensors' values are not modelled. The hyperparameters are those
  of the constructors, all positive.
\<close>

type_synonym shape = "nat \<times> nat \<times> nat"

datatype padding = NoPadding | Same

text \<open>
  \<open>nn.Conv1d(in_channels, out_channels, kernel_size, stride=stride, padding=...)\<close>:
  \<open>padding='same'\<close> is refused by the constructor unless the stride is 1 and keeps the
  length of a non-empty sequence; without padding the kernel must fit and the length
  becomes \<open>(L - kernel_size) div stride + 1\<close>. A wrong channel count and a kernel longer
  than the padded input are \<open>RuntimeError\<close>s.
\<close>

definition Conv1d :: "nat \<Rightarrow> nat \<Rightarrow> nat \<Rightarrow> nat \<Rightarrow> padding \<Rightarrow> shape \<Rightarrow> exn + shape" where
  "Conv1d in_channels out_channels kernel_size strd pad x =
     (case x of (B, C, L) \<Rightarrow>
        if pad = Same \<and> strd \<noteq> 1 then Inl ValueError
        else if strd = 0 then Inl RuntimeError
        else if C \<noteq> in_channels then Inl RuntimeError
        else if pad = Same then (if L = 0 then Inl RuntimeError else Inr (B, out_channels, L))
        else if L < kernel_size then Inl RuntimeError
        else Inr (B, out_channels, (L - kernel_size) div strd + 1))"

text \<open>
  \<open>nn.BatchNorm1d(num_features)\<close>: in training mode a batch with a single value per
  channel raises \<open>ValueError\<close>; the channel count must be \<open>num_features\<close>.
\<close>

definition BatchNorm1d :: "bool \<Rightarrow> nat \<Rightarrow> shape \<Rightarrow> exn + shape" where
  "BatchNorm1d training num_features x =
     (case x of (B, C, L) \<Rightarrow>
        if training \<and> B * L = 1 then Inl ValueError
        else if C \<noteq> num_features then Inl RuntimeError
        else Inr (B, C, L))"

definition ReLU :: "shape \<Rightarrow> exn + shape" where
  "ReLU x = Inr x"

text \<open>
  \<open>nn.AvgPool1d(kernel_size)\<close>: the stride is the kernel size; an output of length
  zero is a \<open>RuntimeError\<close>.
\<close>

definition AvgPool1d :: "nat \<Rightarrow> shape \<Rightarrow> exn + shape" where
  "AvgPool1d kernel_size x =
     (case x of (B, C, L) \<Rightarrow>
        if kernel_size = 0 \<or> L < kernel_size then Inl RuntimeError
        else Inr (B, C, (L - kernel_size) div kernel_size + 1))"

definition AdaptiveAvgPool1d :: "nat \<Rightarrow> shape \<Rightarrow> exn + shape" where
  "AdaptiveAvgPool1d output_size x =
     (case x of (B, C, L) \<Rightarrow> if L = 0 then Inl RuntimeError else Inr (B, C, output_size))"

text \<open>\<open>x.squeeze(-1)\<close> drops the last dimension if it is 1; the result is a list of sizes.\<close>

definition squeeze_last :: "shape \<Rightarrow> nat list" where
  "squeeze_last x = (case x of (B, C, L) \<Rightarrow> if L = 1 then [B, C] else [B, C, L])"

text \<open>\<open>nn.Linear(in_features, out_features)\<close> acts on the last dimension.\<close>

definition Linear :: "nat \<Rightarrow> nat \<Rightarrow> nat list \<Rightarrow> exn + nat list" where
  "Linear in_features out_features sh =
     (if sh \<noteq> [] \<and> last sh = in_features then Inr (butlast sh @ [out_features])
      else Inl RuntimeError)"

text \<open>\<open>out + identity\<close>: the shapes are broadcast; sizes that differ and are not 1 raise.\<close>

definition broadcast_dim :: "nat \<Rightarrow> nat \<Rightarrow> nat option" where
  "broadcast_dim m n = (if m = n then Some m else if m = 1 then Some n else if n = 1 then Some m else None)"

definition tensor_add :: "shape \<Rightarrow> shape \<Rightarrow> exn + shape" where
  "tensor_add x y =
     (case (x, y) of ((B, C, L), (B', C', L')) \<Rightarrow>
        (case (broadcast_dim B B', broadcast_dim C C', broadcast_dim L L') of
           (Some b, Some c, Some l) \<Rightarrow> Inr (b, c, l)
         | _ \<Rightarrow> Inl RuntimeError))"

text \<open>A sequence of layers applied one after the other; the first exception ends it.\<close>

fun chain :: "('a \<Rightarrow> exn + 'a) list \<Rightarrow> 'a \<Rightarrow> exn + 'a" where
  "chain [] x = Inr x"
| "chain (f # rest) x = (case f x of Inl e \<Rightarrow> Inl e | Inr y \<Rightarrow> chain rest y)"

text \<open>\<open>KanResInit.forward\<close>, with the arguments of the constructor.\<close>

definition KanResInit ::
  "bool \<Rightarrow> nat \<Rightarrow> nat \<Rightarrow> nat \<Rightarrow> nat \<Rightarrow> nat \<Rightarrow> nat \<Rightarrow> shape \<Rightarrow> exn + shape" where
  "KanResInit training in_channels filterno_1 filterno_2 filtersize_1 filtersize_2 strd x =
     chain [Conv1d in_channels filterno_1 filtersize_1 strd NoPadding,
            BatchNorm1d training filterno_1,
            ReLU,
            Conv1d filterno_1 filterno_2 filtersize_2 1 NoPadding,
            BatchNorm1d training filterno_2,
            ReLU] x"

text \<open>\<open>KanResModule.forward\<close>: the two stages, then the sum with the input.\<close>

definition KanResModule ::
  "bool \<Rightarrow> nat \<Rightarrow> nat \<Rightarrow> nat \<Rightarrow> nat \<Rightarrow> nat \<Rightarrow> nat \<Rightarrow> shape \<Rightarrow> exn + shape" where
  "KanResModule training in_channels filterno_1 filterno_2 filtersize_1 filtersize_2 strd x =
     (let identity = x
      in case chain [Conv1d in_channels filterno_1 filtersize_1 strd Same,
                     BatchNorm1d training filterno_1,
                     ReLU,
                     Conv1d filterno_1 filterno_2 filtersize_2 1 Same,
                     BatchNorm1d training filterno_2,
                     ReLU] x of
           Inl e \<Rightarrow> Inl e
         | Inr out \<Rightarrow> tensor_add out identity)"

text \<open>The eight residual blocks of \<open>KanResWideX\<close>.\<close>

definition res_modules :: "bool \<Rightarrow> (shape \<Rightarrow> exn + shape) list" where
  "res_modules training = replicate 8 (KanResModule training 32 64 32 50 50 1)"

text \<open>
  The statements of \<open>KanResWideX.forward\<close>, each named by what it applies:
  \<open>self.init_block\<close> (a \<open>KanResInit\<close>), \<open>self.pool\<close> (an \<open>AvgPool1d\<close>), a block of
  \<open>self.res_modules\<close> (a \<open>KanResModule\<close>), \<open>self.global_pool\<close> (an
  \<open>AdaptiveAvgPool1d\<close>), \<open>x.squeeze(-1)\<close> and \<open>self.fc\<close> (a \<open>Linear\<close>). Since the
  values of a tensor are not modelled, the tensor that \<open>forward\<close> holds in \<open>x\<close> is given
  by its shape together with the list of the operations applied so far to the input, in
  order: the last element of the list is the operation whose output the tensor is.
\<close>

datatype operation =
  Apply_KanResInit | Apply_AvgPool1d | Apply_KanResModule | Apply_AdaptiveAvgPool1d
  | Apply_squeeze | Apply_Linear

fun run_modules ::
  "(operation \<times> (shape \<Rightarrow> exn + shape)) list \<Rightarrow> shape \<times> operation list \<Rightarrow>
   exn + (shape \<times> operation list)" where
  "run_modules [] t = Inr t"
| "run_modules ((name, f) # rest) (x, applied) =
     (case f x of Inl e \<Rightarrow> Inl e | Inr y \<Rightarrow> run_modules rest (y, applied @ [name]))"

text \<open>
  \<open>KanResWideX.forward\<close>, with the arguments of the constructor: the stem, the pooling,
  the loop over the residual blocks, the global pooling, then \<open>squeeze(-1)\<close> and the
  linear layer \<open>fc\<close>, whose output is returned as it is. The result is the shape of the
  returned tensor and the operations that produced it.
\<close>

definition KanResWideX ::
  "bool \<Rightarrow> nat \<Rightarrow> nat \<Rightarrow> shape \<Rightarrow> exn + (nat list \<times> operation list)" where
  "KanResWideX training input_channels output_size x =
     (case run_modules
             ([(Apply_KanResInit, KanResInit training input_channels 64 32 8 3 1),
               (Apply_AvgPool1d, AvgPool1d 2)]
              @ map (\<lambda>res_module. (Apply_KanResModule, res_module)) (res_modules training)
              @ [(Apply_AdaptiveAvgPool1d, AdaptiveAvgPool1d 1)]) (x, []) of
        Inl e \<Rightarrow> Inl e
      | Inr (y, applied) \<Rightarrow>
          (case Linear 32 output_size (squeeze_last y) of
             Inl e \<Rightarrow> Inl e
           | Inr logits \<Rightarrow> Inr (logits, applied @ [Apply_squeeze, Apply_Linear])))"

section \<open>Auxiliary definitions: segment ends and example environments\<close>

text \<open>The end of the segment that starts at boundary \<open>i\<close>, as the loop computes it.\<close>

definition next_sample_of :: "(int \<times> string) list \<Rightarrow> int \<Rightarrow> nat \<Rightarrow> int" where
  "next_sample_of ch L i = (if i + 1 < length ch then fst (ch ! (i + 1)) else L)"

text \<open>A directory with the given entries and no readable record.\<close>

definition directory_env :: "string list \<Rightarrow> unit environment" where
  "directory_env entries =
     \<lparr>listdir = (\<lambda>d. entries), joinpath = (\<lambda>d f. d @ ''/'' @ f),
      path_exists = (\<lambda>p. True),
      rdrecord = (\<lambda>p c. Inl (Failure ''No such file'')),
      rdann = (\<lambda>p x. Inl (Failure ''No such file'')),
      train_test_split = (\<lambda>rs t k. Inr (take (length rs - 1) rs, drop (length rs - 1) rs))\<rparr>"

text \<open>A record with a three-sample signal and no annotation file.\<close>

definition signal_only_env :: "int list environment" where
  "signal_only_env =
     \<lparr>listdir = (\<lambda>d. [''04015.hea'', ''04015.dat'']), joinpath = (\<lambda>d f. d @ ''/'' @ f),
      path_exists = (\<lambda>p. True),
      rdrecord = (\<lambda>p c. Inr \<lparr>p_signal = [3, 1, 4], rec_fs = 250, rec_sig_len = 3\<rparr>),
      rdann = (\<lambda>p x. Inl (Failure ''No such file'')),
      train_test_split = (\<lambda>rs t k. Inr (take (length rs - 1) rs, drop (length rs - 1) rs))\<rparr>"

text \<open>
  Three records with a four-sample signal: \<open>04043\<close> cannot be read, \<open>04048\<close> has no
  annotation file, \<open>04015\<close> has both.
\<close>

definition mixed_env :: "int list environment" where
  "mixed_env =
     \<lparr>listdir = (\<lambda>d. [''04043.hea'', ''04015.hea'', ''04048.hea'']),
      joinpath = (\<lambda>d f. d @ ''/'' @ f),
      path_exists = (\<lambda>p. True),
      rdrecord = (\<lambda>p c. if p = ''files/04043'' then Inl (Failure ''No such file'')
                          else Inr \<lparr>p_signal = [5, 6, 7, 8], rec_fs = 250, rec_sig_len = 4\<rparr>),
      rdann = (\<lambda>p x. if p = ''files/04048'' then Inl (Failure ''No such file'')
                       else Inr \<lparr>sample = [0, 2], aux_note = [''(N'', ''(AFIB'']\<rparr>),
      train_test_split = (\<lambda>rs t k. Inr (take (length rs - 1) rs, drop (length rs - 1) rs))\<rparr>"

section \<open>Properties of the rhythm label expander\<close>


lemma length_slice_assign [simp]: "length (slice_assign xs a b v) = length xs"
  by (simp add: slice_assign_def Let_def)

lemma length_label_segment [simp]: "length (label_segment ch L i labels) = length labels"
  by (simp add: label_segment_def Let_def)

lemma length_fold_label_segment [simp]:
  "length (fold (label_segment ch L) is labels) = length labels"
  by (induction "is" arbitrary: labels) simp_all

lemma nth_slice_assign:
  assumes "j < length xs" "0 \<le> a" "0 \<le> b"
  shows "slice_assign xs a b v ! j = (if a \<le> int j \<and> int j < b then v else xs ! j)"
  using assms by (auto simp add: slice_assign_def slice_bound_def Let_def)

lemma slice_assign_empty:
  assumes "0 \<le> a" "0 \<le> b" "b \<le> a \<or> int (length xs) \<le> a"
  shows "slice_assign xs a b v = xs"
proof (rule nth_equalityI)
  show "length (slice_assign xs a b v) = length xs" by simp
next
  fix j assume "j < length (slice_assign xs a b v)"
  then have j: "j < length xs" by simp
  show "slice_assign xs a b v ! j = xs ! j"
    using assms j by (auto simp add: nth_slice_assign)
qed

lemma sorted_next_le:
  assumes "sorted (map fst ch)" "i < k" "k < length ch"
  shows "next_sample_of ch L i \<le> fst (ch ! k)"
proof -
  have "i + 1 < length ch" using assms by simp
  moreover have "fst (ch ! (i + 1)) \<le> fst (ch ! k)"
    using assms sorted_nth_mono[of "map fst ch" "i + 1" k] by simp
  ultimately show ?thesis by (simp add: next_sample_of_def)
qed

lemma fold_label_segment_nth:
  assumes srt: "sorted (map fst ch)" and nn: "\<forall>p \<in> set ch. 0 \<le> fst p" and L: "0 \<le> L"
    and k: "k \<le> length ch" and j: "j < length labels"
  shows "(\<forall>i<k. fst (ch ! i) \<le> int j \<and> int j < next_sample_of ch L i \<longrightarrow>
            fold (label_segment ch L) [0..<k] labels ! j = dict_get rhythm_map (snd (ch ! i)) ''other'')
       \<and> ((\<forall>i<k. \<not> (fst (ch ! i) \<le> int j \<and> int j < next_sample_of ch L i)) \<longrightarrow>
            fold (label_segment ch L) [0..<k] labels ! j = labels ! j)"
  using k
proof (induction k)
  case 0
  show ?case by simp
next
  case (Suc k)
  let ?prev = "fold (label_segment ch L) [0..<k] labels"
  have k: "k < length ch" using Suc.prems by simp
  have IH: "(\<forall>i<k. fst (ch ! i) \<le> int j \<and> int j < next_sample_of ch L i \<longrightarrow>
            ?prev ! j = dict_get rhythm_map (snd (ch ! i)) ''other'')
       \<and> ((\<forall>i<k. \<not> (fst (ch ! i) \<le> int j \<and> int j < next_sample_of ch L i)) \<longrightarrow>
            ?prev ! j = labels ! j)"
    using Suc.IH k by simp
  have a: "0 \<le> fst (ch ! k)" using nn k by simp
  have b: "0 \<le> next_sample_of ch L k" using nn L by (simp add: next_sample_of_def)
  have step: "fold (label_segment ch L) [0..<Suc k] labels ! j =
      (if fst (ch ! k) \<le> int j \<and> int j < next_sample_of ch L k
       then dict_get rhythm_map (snd (ch ! k)) ''other'' else ?prev ! j)"
    using j a b by (simp add: label_segment_def Let_def nth_slice_assign next_sample_of_def)
  have disj: "\<And>i. i < k \<Longrightarrow> int j < next_sample_of ch L i \<Longrightarrow> \<not> fst (ch ! k) \<le> int j"
    using sorted_next_le[OF srt _ k, of _ L] by fastforce
  show ?case
  proof (intro conjI allI impI)
    fix i assume i: "i < Suc k" and seg: "fst (ch ! i) \<le> int j \<and> int j < next_sample_of ch L i"
    show "fold (label_segment ch L) [0..<Suc k] labels ! j = dict_get rhythm_map (snd (ch ! i)) ''other''"
    proof (cases "i = k")
      case True
      then show ?thesis using step seg by simp
    next
      case False
      then have ik: "i < k" using i by simp
      then have "\<not> fst (ch ! k) \<le> int j" using disj seg by blast
      then show ?thesis using step IH ik seg by simp
    qed
  next
    assume none: "\<forall>i<Suc k. \<not> (fst (ch ! i) \<le> int j \<and> int j < next_sample_of ch L i)"
    then have "\<not> (fst (ch ! k) \<le> int j \<and> int j < next_sample_of ch L k)" by simp
    moreover have "?prev ! j = labels ! j" using IH none by simp
    ultimately show "fold (label_segment ch L) [0..<Suc k] labels ! j = labels ! j"
      using step by auto
  qed
qed


lemma rhythm_map_lookup:
  "dict_get rhythm_map aux ''other'' =
     (if aux = ''(AFIB'' then ''atrial_fibrillation''
      else if aux = ''(N'' then ''normal''
      else if aux = ''(AFL'' then ''atrial_flutter'' else ''other'')"
  by (simp add: dict_get_def rhythm_map_def)

lemma startswith_paren: "(aux \<noteq> [] \<and> startswith aux ''('') = (aux \<noteq> [] \<and> hd aux = CHR ''('')"
  by (cases aux) (simp_all add: startswith_def)

lemma rhythm_changes_eq:
  "rhythm_changes ann =
     filter (\<lambda>(smp, aux). aux \<noteq> [] \<and> hd aux = CHR ''('') (zip (sample ann) (aux_note ann))"
  by (simp add: rhythm_changes_def startswith_paren)

lemma set_slice_assign: "set (slice_assign xs a b v) \<subseteq> insert v (set xs)"
  by (auto simp add: slice_assign_def Let_def)

lemma set_label_segment:
  "set (label_segment ch L i labels) \<subseteq> insert (dict_get rhythm_map (snd (ch ! i)) ''other'') (set labels)"
  by (simp add: label_segment_def Let_def set_slice_assign)

lemma set_fold_label_segment:
  assumes "set labels \<subseteq> S" "\<And>aux. dict_get rhythm_map aux ''other'' \<in> S"
  shows "set (fold (label_segment ch L) is labels) \<subseteq> S"
  using assms(1)
proof (induction "is" arbitrary: labels)
  case Nil
  then show ?case by simp
next
  case (Cons i "is")
  have "set (label_segment ch L i labels) \<subseteq> S"
    using set_label_segment[of ch L i labels] Cons.prems assms(2) by blast
  then show ?case using Cons.IH by simp
qed

text \<open>
  Claim C1. Let \<open>bs\<close> be the events whose auxiliary string is present and begins with
  \<open>(\<close>, in order. For a signal length \<open>L \<ge> 0\<close> and boundaries in ascending order
  at non-negative samples, \<open>_get_rhythm_labels\<close> returns an array of length \<open>L\<close> in
  which every entry is one of the five label names, every sample of \<open>[s_i, s_(i+1))\<close>
  (up to \<open>L\<close> for the last boundary) carries the name that the table gives for the
  auxiliary string of boundary \<open>i\<close>, \<open>other\<close> when the table has no entry, and every
  sample before the first boundary (every sample, when there is no boundary) is
  \<open>unknown\<close>.
\<close>

theorem rhythm_labels_segments:
  assumes bs: "bs = filter (\<lambda>(smp, aux). aux \<noteq> [] \<and> hd aux = CHR ''('')
                       (zip (sample ann) (aux_note ann))"
    and L: "0 \<le> L"
    and srt: "sorted (map fst bs)"
    and nn: "\<forall>p \<in> set bs. 0 \<le> fst p"
  shows "\<exists>labels. get_rhythm_labels ann L = Inr labels \<and> length labels = nat L \<and>
     set labels \<subseteq> {''unknown'', ''atrial_fibrillation'', ''normal'', ''atrial_flutter'', ''other''} \<and>
     (\<forall>j<nat L.
        (\<forall>i<length bs.
            fst (bs ! i) \<le> int j \<and> int j < (if i + 1 < length bs then fst (bs ! (i + 1)) else L) \<longrightarrow>
            labels ! j =
              (if snd (bs ! i) = ''(AFIB'' then ''atrial_fibrillation''
               else if snd (bs ! i) = ''(N'' then ''normal''
               else if snd (bs ! i) = ''(AFL'' then ''atrial_flutter'' else ''other'')) \<and>
        ((bs = [] \<or> int j < fst (hd bs)) \<longrightarrow> labels ! j = ''unknown''))"
proof -
  let ?init = "replicate (nat L) ''unknown''"
  let ?labels = "fold (label_segment bs L) [0..<length bs] ?init"
  have ch: "rhythm_changes ann = bs" by (simp add: rhythm_changes_eq bs)
  have res: "get_rhythm_labels ann L = Inr ?labels"
    using L by (simp add: get_rhythm_labels_def Let_def ch)
  have len: "length ?labels = nat L" by simp
  have body: "(\<forall>i<length bs.
            fst (bs ! i) \<le> int j \<and> int j < (if i + 1 < length bs then fst (bs ! (i + 1)) else L) \<longrightarrow>
            ?labels ! j =
              (if snd (bs ! i) = ''(AFIB'' then ''atrial_fibrillation''
               else if snd (bs ! i) = ''(N'' then ''normal''
               else if snd (bs ! i) = ''(AFL'' then ''atrial_flutter'' else ''other'')) \<and>
        ((bs = [] \<or> int j < fst (hd bs)) \<longrightarrow> ?labels ! j = ''unknown'')" if j: "j < nat L" for j
  proof -
    have jl: "j < length ?init" using j by simp
    note inv = fold_label_segment_nth[OF srt nn L le_refl jl]
    have first: "\<forall>i<length bs. \<not> (fst (bs ! i) \<le> int j \<and> int j < next_sample_of bs L i)"
      if "bs = [] \<or> int j < fst (hd bs)"
    proof (intro allI impI)
      fix i assume i: "i < length bs"
      then have "bs \<noteq> []" by auto
      then have "int j < fst (hd bs)" using that by simp
      moreover have "fst (hd bs) \<le> fst (bs ! i)"
        using sorted_nth_mono[of "map fst bs" 0 i] srt i \<open>bs \<noteq> []\<close> by (simp add: hd_conv_nth)
      ultimately show "\<not> (fst (bs ! i) \<le> int j \<and> int j < next_sample_of bs L i)" by simp
    qed
    show ?thesis
    proof (intro conjI allI impI)
      fix i assume "i < length bs"
        and "fst (bs ! i) \<le> int j \<and> int j < (if i + 1 < length bs then fst (bs ! (i + 1)) else L)"
      then show "?labels ! j =
              (if snd (bs ! i) = ''(AFIB'' then ''atrial_fibrillation''
               else if snd (bs ! i) = ''(N'' then ''normal''
               else if snd (bs ! i) = ''(AFL'' then ''atrial_flutter'' else ''other'')"
        using inv by (simp add: next_sample_of_def rhythm_map_lookup)
    next
      assume "bs = [] \<or> int j < fst (hd bs)"
      then show "?labels ! j = ''unknown''"
        using inv first j by simp
    qed
  qed
  have "set ?init \<subseteq> {''unknown'', ''atrial_fibrillation'', ''normal'', ''atrial_flutter'', ''other''}"
    by auto
  then have names: "set ?labels \<subseteq>
      {''unknown'', ''atrial_fibrillation'', ''normal'', ''atrial_flutter'', ''other''}"
    by (rule set_fold_label_segment) (simp add: rhythm_map_lookup)
  show ?thesis using res len names body by blast
qed

theorem rhythm_labels_segments_witness:
  "\<exists>labels. get_rhythm_labels \<lparr>sample = [0, 1, 2, 5], aux_note = [''(N'', [], ''(AFIB'', ''(J'']\<rparr> 6 = Inr labels
     \<and> length labels = 6 \<and> labels ! 1 = ''normal'' \<and> labels ! 4 = ''atrial_fibrillation''
     \<and> labels ! 5 = ''other''"
proof -
  let ?ann = "\<lparr>sample = [0, 1, 2, 5], aux_note = [''(N'', [], ''(AFIB'', ''(J'']\<rparr>"
  let ?bs = "[(0::int, ''(N''), (2, ''(AFIB''), (5, ''(J'')]"
  have bs: "?bs = filter (\<lambda>(smp, aux). aux \<noteq> [] \<and> hd aux = CHR ''('')
                       (zip (sample ?ann) (aux_note ?ann))" by simp
  from rhythm_labels_segments[OF bs, of 6]
  obtain labels where r: "get_rhythm_labels ?ann 6 = Inr labels" "length labels = nat 6"
    and seg: "\<forall>j<nat 6.
        (\<forall>i<length ?bs.
            fst (?bs ! i) \<le> int j \<and> int j < (if i + 1 < length ?bs then fst (?bs ! (i + 1)) else 6) \<longrightarrow>
            labels ! j =
              (if snd (?bs ! i) = ''(AFIB'' then ''atrial_fibrillation''
               else if snd (?bs ! i) = ''(N'' then ''normal''
               else if snd (?bs ! i) = ''(AFL'' then ''atrial_flutter'' else ''other''))
         \<and> ((?bs = [] \<or> int j < fst (hd ?bs)) \<longrightarrow> labels ! j = ''unknown'')"
    by auto
  have "labels ! 1 = ''normal''" using seg[rule_format, of 1, THEN conjunct1, rule_format, of 0] by simp
  moreover have "labels ! 4 = ''atrial_fibrillation''"
    using seg[rule_format, of 4, THEN conjunct1, rule_format, of 1] by simp
  moreover have "labels ! 5 = ''other''"
    using seg[rule_format, of 5, THEN conjunct1, rule_format, of 2] by simp
  ultimately show ?thesis using r by simp
qed


text \<open>
  Claim C10. For every annotation, whatever the order and the size of its sample
  indices, and every \<open>L \<ge> 0\<close>, \<open>_get_rhythm_labels\<close> returns (it does not raise) an
  array of length exactly \<open>L\<close> whose entries are among the five label names. A pass of
  the loop whose segment (between two non-negative sample indices) is reversed or starts
  at or after the end of the array assigns to an empty slice and leaves the array as it
  is.
\<close>

theorem get_rhythm_labels_never_raises:
  assumes L: "0 \<le> L"
  shows "\<exists>labels. get_rhythm_labels ann L = Inr labels \<and> length labels = nat L \<and>
           set labels \<subseteq> {''unknown'', ''atrial_fibrillation'', ''normal'', ''atrial_flutter'', ''other''} \<and>
           (\<forall>ch i ls. 0 \<le> fst (ch ! i) \<and> 0 \<le> (if i + 1 < length ch then fst (ch ! (i + 1)) else L) \<and>
                ((if i + 1 < length ch then fst (ch ! (i + 1)) else L) \<le> fst (ch ! i)
                 \<or> int (length ls) \<le> fst (ch ! i)) \<longrightarrow>
                label_segment ch L i ls = ls)"
proof -
  let ?S = "{''unknown'', ''atrial_fibrillation'', ''normal'', ''atrial_flutter'', ''other''}"
  let ?labels = "fold (label_segment (rhythm_changes ann) L) [0..<length (rhythm_changes ann)]
                   (replicate (nat L) ''unknown'')"
  have res: "get_rhythm_labels ann L = Inr ?labels"
    using L by (simp add: get_rhythm_labels_def Let_def)
  have len: "length ?labels = nat L" by simp
  have names: "\<And>aux. dict_get rhythm_map aux ''other'' \<in> ?S"
    by (simp add: rhythm_map_lookup)
  have "set (replicate (nat L) ''unknown'') \<subseteq> ?S" by auto
  then have sub: "set ?labels \<subseteq> ?S"
    using names by (rule set_fold_label_segment)
  have deg: "\<forall>ch i ls. 0 \<le> fst (ch ! i) \<and> 0 \<le> (if i + 1 < length ch then fst (ch ! (i + 1)) else L) \<and>
                ((if i + 1 < length ch then fst (ch ! (i + 1)) else L) \<le> fst (ch ! i)
                 \<or> int (length ls) \<le> fst (ch ! i)) \<longrightarrow>
                label_segment ch L i ls = ls"
    by (simp add: label_segment_def Let_def slice_assign_empty)
  show ?thesis using res len sub deg by blast
qed

theorem get_rhythm_labels_never_raises_witness:
  "\<exists>labels. get_rhythm_labels \<lparr>sample = [9, 2], aux_note = [''(N'', ''(AFIB'']\<rparr> 4 = Inr labels
      \<and> length labels = 4
      \<and> label_segment [(9, ''(N''), (2, ''(AFIB'')] 4 0 [''unknown'', ''unknown'', ''unknown'', ''unknown'']
          = [''unknown'', ''unknown'', ''unknown'', ''unknown'']"
proof -
  from get_rhythm_labels_never_raises[of 4 "\<lparr>sample = [9, 2], aux_note = [''(N'', ''(AFIB'']\<rparr>"]
  obtain labels where r: "get_rhythm_labels \<lparr>sample = [9, 2], aux_note = [''(N'', ''(AFIB'']\<rparr> 4 = Inr labels"
      "length labels = nat 4"
    and deg: "\<forall>ch i ls. 0 \<le> fst (ch ! i) \<and> 0 \<le> (if i + 1 < length ch then fst (ch ! (i + 1)) else 4) \<and>
                ((if i + 1 < length ch then fst (ch ! (i + 1)) else 4) \<le> fst (ch ! i)
                 \<or> int (length ls) \<le> fst (ch ! i)) \<longrightarrow>
                label_segment ch 4 i (ls :: string list) = ls"
    by auto
  have "label_segment [(9, ''(N''), (2, ''(AFIB'')] 4 0 [''unknown'', ''unknown'', ''unknown'', ''unknown'']
          = [''unknown'', ''unknown'', ''unknown'', ''unknown'']"
    using deg[rule_format, of "[(9, ''(N''), (2, ''(AFIB'')]" 0 "[''unknown'', ''unknown'', ''unknown'', ''unknown'']"]
    by simp
  then show ?thesis using r by simp
qed


section \<open>Properties of the record catalog and the loader\<close>


lemma endswith_iff: "endswith s p \<longleftrightarrow> (\<exists>r. s = r @ p)"
proof
  assume "endswith s p"
  then have "s = take (length s - length p) s @ p"
    by (metis append_take_drop_id endswith_def)
  then show "\<exists>r. s = r @ p" ..
next
  assume "\<exists>r. s = r @ p"
  then show "endswith s p" by (auto simp add: endswith_def)
qed

lemma endswith_dash: "endswith r ''-'' \<longleftrightarrow> r \<noteq> [] \<and> last r = CHR ''-''"
proof
  assume "endswith r ''-''"
  then obtain q where "r = q @ ''-''" by (auto simp add: endswith_iff)
  then show "r \<noteq> [] \<and> last r = CHR ''-''" by simp
next
  assume "r \<noteq> [] \<and> last r = CHR ''-''"
  then have "r = butlast r @ ''-''" by (metis append_butlast_last_id)
  then show "endswith r ''-''" unfolding endswith_iff by blast
qed

lemma stem_hea: "r \<noteq> [] \<Longrightarrow> stem (r @ ''.hea'') = r"
  by (simp add: stem_def rfind_def Let_def)

lemma stem_only_suffix: "stem ''.hea'' = ''.hea''"
  by (simp add: stem_def rfind_def Let_def)

text \<open>
  Claim C9. \<open>_get_records\<close> returns a sorted list; its elements are exactly the stems
  of the directory entries that end in \<open>.hea\<close> (the name without that suffix; the entry
  named just \<open>.hea\<close> is its own stem), except the stems that end in \<open>-\<close>; nothing is
  raised, and an empty directory gives the empty list.
\<close>

theorem get_records_catalog:
  "sorted (get_records env data_path) \<and>
   set (get_records env data_path) =
     {r. (r \<noteq> [] \<and> r @ ''.hea'' \<in> set (listdir env data_path)
          \<or> r = ''.hea'' \<and> ''.hea'' \<in> set (listdir env data_path))
         \<and> \<not> (r \<noteq> [] \<and> last r = CHR ''-'')} \<and>
   (listdir env data_path = [] \<longrightarrow> get_records env data_path = [])"
proof (intro conjI)
  show "sorted (get_records env data_path)" by (simp add: get_records_def)
next
  let ?ls = "listdir env data_path"
  have set_eq: "set (get_records env data_path) =
      stem ` {f \<in> set ?ls. endswith f ''.hea'' \<and> \<not> endswith (stem f) ''-''}"
    by (auto simp add: get_records_def glob_hea_def)
  show "set (get_records env data_path) =
     {r. (r \<noteq> [] \<and> r @ ''.hea'' \<in> set ?ls \<or> r = ''.hea'' \<and> ''.hea'' \<in> set ?ls)
         \<and> \<not> (r \<noteq> [] \<and> last r = CHR ''-'')}" (is "_ = ?R")
  proof (rule set_eqI)
    fix r
    show "r \<in> set (get_records env data_path) \<longleftrightarrow> r \<in> ?R"
    proof
      assume "r \<in> set (get_records env data_path)"
      then obtain f where f: "f \<in> set ?ls" "endswith f ''.hea''" "\<not> endswith (stem f) ''-''"
        and r: "r = stem f" using set_eq by auto
      from f(2) obtain q where q: "f = q @ ''.hea''" by (auto simp add: endswith_iff)
      show "r \<in> ?R"
      proof (cases "q = []")
        case True
        then show ?thesis using f q r by (simp add: stem_only_suffix)
      next
        case False
        then have "stem f = q" using q by (simp add: stem_hea)
        then show ?thesis using f q r False by (simp add: endswith_dash)
      qed
    next
      assume "r \<in> ?R"
      then have nd: "\<not> endswith r ''-''"
        and cases: "r \<noteq> [] \<and> r @ ''.hea'' \<in> set ?ls \<or> r = ''.hea'' \<and> ''.hea'' \<in> set ?ls"
        by (simp_all add: endswith_dash)
      from cases show "r \<in> set (get_records env data_path)"
      proof
        assume a: "r \<noteq> [] \<and> r @ ''.hea'' \<in> set ?ls"
        then have "stem (r @ ''.hea'') = r" by (simp add: stem_hea)
        moreover have "endswith (r @ ''.hea'') ''.hea''" unfolding endswith_iff by blast
        ultimately have "r @ ''.hea'' \<in> {f \<in> set ?ls. endswith f ''.hea'' \<and> \<not> endswith (stem f) ''-''}"
          using a nd by simp
        then have "stem (r @ ''.hea'') \<in> set (get_records env data_path)"
          unfolding set_eq by (rule imageI)
        then show ?thesis using \<open>stem (r @ ''.hea'') = r\<close> by simp
      next
        assume a: "r = ''.hea'' \<and> ''.hea'' \<in> set ?ls"
        have "endswith ''.hea'' ''.hea''" by (simp add: endswith_def)
        then have "''.hea'' \<in> {f \<in> set ?ls. endswith f ''.hea'' \<and> \<not> endswith (stem f) ''-''}"
          using a nd by (simp add: stem_only_suffix)
        then have "stem ''.hea'' \<in> set (get_records env data_path)"
          unfolding set_eq by (rule imageI)
        then show ?thesis using a by (simp add: stem_only_suffix)
      qed
    qed
  qed
next
  show "listdir env data_path = [] \<longrightarrow> get_records env data_path = []"
    by (simp add: get_records_def glob_hea_def)
qed

theorem get_records_catalog_witness:
  "get_records (directory_env []) ''files'' = [] \<and>
   ''04015'' \<in> set (get_records (directory_env [''04043.hea'', ''04015.dat'', ''00735-.hea'', ''04015.hea'']) ''files'') \<and>
   ''00735-'' \<notin> set (get_records (directory_env [''04043.hea'', ''04015.dat'', ''00735-.hea'', ''04015.hea'']) ''files'')"
proof -
  let ?env = "directory_env [''04043.hea'', ''04015.dat'', ''00735-.hea'', ''04015.hea'']"
  have ls: "listdir ?env ''files'' = [''04043.hea'', ''04015.dat'', ''00735-.hea'', ''04015.hea'']"
    by (simp add: directory_env_def)
  have "get_records (directory_env []) ''files'' = []"
    using get_records_catalog[of "directory_env []" "''files''"] by (simp add: directory_env_def)
  moreover have "''04015'' \<in> set (get_records ?env ''files'')"
    using get_records_catalog[of ?env "''files''"] unfolding ls by simp
  moreover have "''00735-'' \<notin> set (get_records ?env ''files'')"
    using get_records_catalog[of ?env "''files''"] unfolding ls by simp
  ultimately show ?thesis by simp
qed

text \<open>
  Claim C5. When the signal of a record is read (with a non-zero sampling frequency) and
  reading the annotation raises, \<open>load_record\<close> raises nothing and returns the signal,
  the sampling frequency and the signal length with \<open>rhythm_labels\<close> set to \<open>None\<close>.
\<close>

theorem load_record_without_annotation:
  assumes "rdrecord env (joinpath env data_path name) (if channels = Some [] then None else channels) = Inr rec"
    and "rec_fs rec \<noteq> 0"
    and "rdann env (joinpath env data_path name) ''atr'' = Inl e"
  shows "load_record env data_path name channels =
           Inr \<lparr>record_name = name, signal = p_signal rec, fs = rec_fs rec,
                sig_len = rec_sig_len rec,
                duration = of_int (rec_sig_len rec) / of_int (rec_fs rec),
                rhythm_labels = None\<rparr>"
  using assms by (auto simp add: load_record_def Let_def split: if_splits)

theorem load_record_without_annotation_witness:
  "load_record signal_only_env ''files'' ''04015'' (Some [0]) =
     Inr \<lparr>record_name = ''04015'', signal = [3, 1, 4], fs = 250, sig_len = 3,
          duration = 3 / 250, rhythm_labels = None\<rparr>"
  using load_record_without_annotation[of signal_only_env "''files''" "''04015''" "Some [0]"
      "\<lparr>p_signal = [3, 1, 4], rec_fs = 250, rec_sig_len = 3\<rparr>" "Failure ''No such file''"]
  by (simp add: signal_only_env_def)


section \<open>Properties of the windowing\<close>


lemma py_range_windows:
  assumes S: "0 < S"
  shows "py_range 0 (L - W + 1) S = Inr (map (\<lambda>k. int k * S) [0..<nat ((L - W) div S + 1)])"
proof -
  have a: "L - W + 1 - 0 + S - 1 = (L - W) + S" by simp
  have b: "((L - W) + S) div S = (L - W) div S + 1"
    using S by simp
  have "(L - W + 1 - 0 + S - 1) div S = (L - W) div S + 1"
    by (subst a) (rule b)
  then show ?thesis using S by (simp add: py_range_def)
qed

lemma window_start_fits:
  assumes S: "0 < S" and k: "k < nat ((L - W) div S + 1)"
  shows "int k * S + W \<le> L"
proof -
  let ?q = "(L - W) div S"
  have e: "?q * S + (L - W) mod S = L - W" by (rule div_mult_mod_eq)
  have m: "0 \<le> (L - W) mod S" using S by simp
  have "int k \<le> ?q" using k by linarith
  then have "int k * S \<le> ?q * S" using S by (simp add: mult_right_mono)
  then show ?thesis using e m by linarith
qed

lemma window_count_maximal:
  assumes S: "0 < S"
  shows "L < int (nat ((L - W) div S + 1)) * S + W"
proof -
  let ?q = "(L - W) div S"
  have e: "?q * S + (L - W) mod S = L - W" by (rule div_mult_mod_eq)
  have m: "(L - W) mod S < S" using S by simp
  have "(?q + 1) * S = ?q * S + S" by (simp add: algebra_simps)
  with e m have "L - W < (?q + 1) * S" by linarith
  moreover have "(?q + 1) * S \<le> int (nat (?q + 1)) * S"
    using S by (intro mult_right_mono) auto
  ultimately show ?thesis by linarith
qed

lemma window_count_cases:
  assumes S: "0 < (S::int)"
  shows "nat ((L - W) div S + 1) = (if W \<le> L then nat ((L - W) div S + 1) else 0)"
proof (cases "W \<le> L")
  case True
  then show ?thesis by simp
next
  case False
  then have "L - W < 0" by simp
  then have "(L - W) div S < 0" using S by (simp add: div_neg_pos_less0)
  then show ?thesis using False by simp
qed

lemma slice_window:
  assumes "0 \<le> a" "0 \<le> w" "a + w \<le> int (length xs)"
  shows "slice xs a (a + w) = take (nat w) (drop (nat a) xs)"
    and "length (slice xs a (a + w)) = nat w"
proof -
  have lo: "slice_bound (length xs) a = nat a"
    using assms by (auto simp add: slice_bound_def)
  have hi: "slice_bound (length xs) (a + w) = nat a + nat w"
    using assms by (auto simp add: slice_bound_def nat_add_distrib)
  show "slice xs a (a + w) = take (nat w) (drop (nat a) xs)"
    by (simp add: slice_def lo hi Let_def)
  then show "length (slice xs a (a + w)) = nat w"
    using assms by (simp add: min_def) linarith
qed

lemma slice_from_start:
  assumes "0 \<le> a" "0 \<le> w"
  shows "slice xs a (a + w) = take (nat w) (drop (nat a) xs)"
proof -
  let ?n = "length xs"
  have "take (slice_bound ?n (a + w) - slice_bound ?n a) (drop (slice_bound ?n a) xs)
        = take (nat w) (drop (nat a) xs)"
  proof (cases "a + w \<le> int ?n")
    case True
    then show ?thesis using slice_window(1)[OF assms True] by (simp add: slice_def Let_def)
  next
    case False
    show ?thesis
    proof (cases "int ?n \<le> a")
      case True
      then show ?thesis using assms False by (auto simp add: slice_bound_def)
    next
      case a: False
      have lo: "slice_bound ?n a = nat a" using assms a by (auto simp add: slice_bound_def)
      have hi: "slice_bound ?n (a + w) = ?n" using assms False by (auto simp add: slice_bound_def)
      have "length (drop (nat a) xs) = ?n - nat a" by simp
      moreover have "?n - nat a \<le> nat w" using False assms by linarith
      ultimately show ?thesis by (simp add: lo hi)
    qed
  qed
  then show ?thesis by (simp add: slice_def Let_def)
qed


lemma nat_start: "0 < S \<Longrightarrow> nat (int k * S) = k * nat S"
  by (simp add: nat_mult_distrib)

lemma window_length:
  assumes W: "0 < W" and S: "0 < S" and k: "k < nat ((int (length xs) - W) div S + 1)"
  shows "length (take (nat W) (drop (k * nat S) xs)) = nat W"
proof -
  have "int k * S + W \<le> int (length xs)" using window_start_fits[OF S k] .
  moreover have "int (k * nat S) = int k * S" using S by simp
  ultimately have "nat W \<le> length xs - k * nat S" using W by linarith
  then show ?thesis by simp
qed

lemma np_array_uniform:
  assumes "\<forall>r \<in> set rows. length r = w"
  shows "np_array rows = Inr rows"
proof (cases rows)
  case Nil
  then show ?thesis by (simp add: np_array_def)
next
  case (Cons r rs)
  then have "list_all (\<lambda>r. length r = length (hd rows)) rows"
    using assms by (simp add: list_all_iff)
  then show ?thesis by (simp add: np_array_def)
qed

lemma create_windows_positive:
  assumes W: "0 < W" and S: "0 < S"
  shows "create_windows sig labels W S =
     Inr (map (\<lambda>k. take (nat W) (drop (k * nat S) sig)) [0..<nat ((int (length sig) - W) div S + 1)],
          map (\<lambda>k. if mean_ge_half (take (nat W) (drop (k * nat S) labels)) then 1 else 0)
              [0..<nat ((int (length sig) - W) div S + 1)])"
proof -
  let ?n = "nat ((int (length sig) - W) div S + 1)"
  have sl: "slice xs (int k * S) (int k * S + W) = take (nat W) (drop (k * nat S) xs)" for xs :: "'b list" and k
    using slice_from_start[of "int k * S" W xs] W S by (simp add: nat_start)
  let ?ws = "map (\<lambda>k. take (nat W) (drop (k * nat S) sig)) [0..<?n]"
  have "\<forall>r \<in> set ?ws. length r = nat W"
    using window_length[OF W S] by auto
  then have arr: "np_array ?ws = Inr ?ws" by (rule np_array_uniform)
  show ?thesis
    by (simp add: create_windows_def py_range_windows[OF S] Let_def comp_def sl arr)
qed

text \<open>
  Claim C2. For a window size \<open>W > 0\<close> and a stride \<open>S > 0\<close>, \<open>create_windows\<close>
  returns (it does not raise) the windows that start at \<open>0, S, 2S, ...\<close> as long as
  \<open>start + W \<le> L\<close>: their number is \<open>(L - W) div S + 1\<close> when \<open>W \<le> L\<close> and zero
  when \<open>L < W\<close>, window \<open>k\<close> is the \<open>W\<close> consecutive samples from position \<open>k * S\<close>,
  and one more window would not fit.
\<close>

theorem create_windows_count:
  assumes W: "0 < W" and S: "0 < S"
  shows "\<exists>ws ls. create_windows sig labels W S = Inr (ws, ls) \<and>
     length ws = (if W \<le> int (length sig) then nat ((int (length sig) - W) div S + 1) else 0) \<and>
     length ls = length ws \<and>
     (\<forall>k<length ws. int k * S + W \<le> int (length sig) \<and>
          ws ! k = take (nat W) (drop (k * nat S) sig) \<and> length (ws ! k) = nat W) \<and>
     int (length sig) < int (length ws) * S + W"
proof -
  let ?n = "nat ((int (length sig) - W) div S + 1)"
  let ?ws = "map (\<lambda>k. take (nat W) (drop (k * nat S) sig)) [0..<?n]"
  let ?ls = "map (\<lambda>k. if mean_ge_half (take (nat W) (drop (k * nat S) labels)) then 1 else (0::int)) [0..<?n]"
  have res: "create_windows sig labels W S = Inr (?ws, ?ls)"
    using create_windows_positive[OF W S] .
  have n: "length ?ws = (if W \<le> int (length sig) then ?n else 0)"
    using window_count_cases[OF S, of "int (length sig)" W] by simp
  have len: "length ?ls = length ?ws" by simp
  have each: "\<forall>k<length ?ws. int k * S + W \<le> int (length sig) \<and>
          ?ws ! k = take (nat W) (drop (k * nat S) sig) \<and> length (?ws ! k) = nat W"
  proof (intro allI impI)
    fix k assume "k < length ?ws"
    then have k: "k < ?n" by simp
    have a: "int k * S + W \<le> int (length sig)" using window_start_fits[OF S k] .
    have b: "?ws ! k = take (nat W) (drop (k * nat S) sig)" using k by simp
    have c: "length (?ws ! k) = nat W" unfolding b using window_length[OF W S k] .
    show "int k * S + W \<le> int (length sig) \<and>
          ?ws ! k = take (nat W) (drop (k * nat S) sig) \<and> length (?ws ! k) = nat W"
      using a b c by blast
  qed
  have mx: "int (length sig) < int (length ?ws) * S + W"
    using window_count_maximal[OF S, of "int (length sig)" W] by simp
  show ?thesis using res n len each mx by blast
qed

theorem create_windows_count_witness:
  "\<exists>ws ls. create_windows [10, 11, 12, 13, 14, 15, 16 :: int] [0, 0, 1, 1, 1, 0, 0] 3 2 = Inr (ws, ls)
     \<and> length ws = 3 \<and> ws ! 1 = [12, 13, 14] \<and>
   (\<exists>ws' ls'. create_windows [10, 11 :: int] [0, 1] 3 2 = Inr (ws', ls') \<and> length ws' = 0)"
proof -
  from create_windows_count[of 3 2 "[10, 11, 12, 13, 14, 15, 16 :: int]" "[0, 0, 1, 1, 1, 0, 0]"]
  obtain ws ls where a: "create_windows [10, 11, 12, 13, 14, 15, 16 :: int] [0, 0, 1, 1, 1, 0, 0] 3 2 = Inr (ws, ls)"
    "length ws = 3"
    "\<forall>k<length ws. int k * 2 + 3 \<le> int (length [10, 11, 12, 13, 14, 15, 16 :: int]) \<and>
          ws ! k = take (nat 3) (drop (k * nat 2) [10, 11, 12, 13, 14, 15, 16 :: int]) \<and> length (ws ! k) = nat 3"
    by auto
  have "ws ! 1 = [12, 13, 14]" using a(2) a(3)[rule_format, of 1] by simp
  moreover from create_windows_count[of 3 2 "[10, 11 :: int]" "[0, 1]"]
  have "\<exists>ws' ls'. create_windows [10, 11 :: int] [0, 1] 3 2 = Inr (ws', ls') \<and> length ws' = 0"
    by auto
  ultimately show ?thesis using a(1,2) by blast
qed

lemma sum_list_binary:
  assumes "set xs \<subseteq> {0, 1 :: int}"
  shows "sum_list xs = int (length (filter (\<lambda>x. x = 1) xs))"
  using assms by (induction xs) auto

lemma mean_ge_half_iff:
  "mean_ge_half xs \<longleftrightarrow> xs \<noteq> [] \<and> (1 / 2 :: rat) \<le> of_int (sum_list xs) / of_nat (length xs)"
  by (simp add: mean_ge_half_def np_mean_def)

lemma half_le_quotient:
  assumes "0 < n"
  shows "((1 / 2 :: rat) \<le> of_int s / of_nat n) \<longleftrightarrow> int n \<le> 2 * s"
proof -
  have "((1 / 2 :: rat) \<le> of_int s / of_nat n) \<longleftrightarrow> (of_nat n :: rat) \<le> 2 * of_int s"
    using assms by (simp add: field_simps)
  also have "\<dots> \<longleftrightarrow> (of_int (int n) :: rat) \<le> of_int (2 * s)" by simp
  also have "\<dots> \<longleftrightarrow> int n \<le> 2 * s" by (simp only: of_int_le_iff)
  finally show ?thesis .
qed


text \<open>
  Claim C3. Over a label array whose entries are 0 or 1, the label of window \<open>k\<close> is 1
  if the mean of the labels at the positions \<open>[k * S, k * S + W)\<close> is at least one half,
  and 0 otherwise; when the label array is as long as the signal, the window has \<open>W\<close>
  labels and its label is 1 exactly when at least half of them are 1.
\<close>

theorem create_windows_majority_label:
  assumes W: "0 < W" and S: "0 < S"
    and res: "create_windows sig labels W S = Inr (ws, ls)"
    and k: "k < length ls"
    and seg: "seg = take (nat W) (drop (k * nat S) labels)"
    and bin: "set labels \<subseteq> {0, 1}"
  shows "ls ! k = (if seg \<noteq> [] \<and> (1 / 2 :: rat) \<le> of_int (sum_list seg) / of_nat (length seg)
                   then 1 else 0) \<and>
         (length labels = length sig \<longrightarrow> length seg = nat W) \<and>
         (length labels = length sig \<longrightarrow>
            (ls ! k = 1 \<longleftrightarrow> W \<le> 2 * int (length (filter (\<lambda>x. x = 1) seg))) \<and>
            (ls ! k = 0 \<longleftrightarrow> 2 * int (length (filter (\<lambda>x. x = 1) seg)) < W))"
proof -
  let ?n = "nat ((int (length sig) - W) div S + 1)"
  have ls: "ls = map (\<lambda>k. if mean_ge_half (take (nat W) (drop (k * nat S) labels)) then 1 else 0) [0..<?n]"
    using res create_windows_positive[OF W S, of sig labels] by simp
  have kn: "k < ?n" using k ls by simp
  have lab: "ls ! k = (if mean_ge_half seg then 1 else 0)"
    using kn by (simp add: ls seg)
  have first: "ls ! k = (if seg \<noteq> [] \<and> (1 / 2 :: rat) \<le> of_int (sum_list seg) / of_nat (length seg)
                   then 1 else 0)"
    using lab by (simp add: mean_ge_half_iff)
  have len: "length seg = nat W" if "length labels = length sig"
    using window_length[OF W S, of k labels] kn that by (simp add: seg)
  have maj: "(ls ! k = 1 \<longleftrightarrow> W \<le> 2 * int (length (filter (\<lambda>x. x = 1) seg))) \<and>
            (ls ! k = 0 \<longleftrightarrow> 2 * int (length (filter (\<lambda>x. x = 1) seg)) < W)"
    if eq: "length labels = length sig"
  proof -
    have l: "length seg = nat W" using len eq by simp
    then have pos: "0 < length seg" using W by simp
    have "set seg \<subseteq> set labels"
      unfolding seg by (meson set_take_subset set_drop_subset subset_trans)
    then have s: "sum_list seg = int (length (filter (\<lambda>x. x = 1) seg))"
      using bin by (intro sum_list_binary) auto
    have "mean_ge_half seg \<longleftrightarrow> int (length seg) \<le> 2 * sum_list seg"
      using pos half_le_quotient[OF pos, of "sum_list seg"] by (simp add: mean_ge_half_iff)
    also have "\<dots> \<longleftrightarrow> W \<le> 2 * int (length (filter (\<lambda>x. x = 1) seg))"
      using l W s by simp
    finally show ?thesis using lab by auto
  qed
  show ?thesis using first len maj by blast
qed

theorem create_windows_majority_label_witness:
  "\<exists>ws ls. create_windows [10, 11, 12, 13, 14, 15, 16 :: int] [0, 0, 1, 1, 1, 0, 0] 3 2 = Inr (ws, ls)
     \<and> ls ! 0 = 0 \<and> ls ! 1 = 1"
proof -
  let ?sig = "[10, 11, 12, 13, 14, 15, 16 :: int]"
  let ?labels = "[0, 0, 1, 1, 1, 0, 0 :: int]"
  obtain ws ls where r: "create_windows ?sig ?labels 3 2 = Inr (ws, ls)" and n: "length ls = 3"
    using create_windows_positive[of 3 2 ?sig ?labels] by simp
  have "ls ! 0 = 0"
    using create_windows_majority_label[of 3 2 ?sig ?labels ws ls 0 "[0, 0, 1]"] r n by simp
  moreover have "ls ! 1 = 1"
    using create_windows_majority_label[of 3 2 ?sig ?labels ws ls 1 "[1, 1, 1]"] r n by simp
  ultimately show ?thesis using r by blast
qed


section \<open>Properties of the network shapes\<close>


lemma KanResModule_model_block:
  "KanResModule training 32 64 32 50 50 1 (B, C, L) =
     (if C \<noteq> 32 \<or> L = 0 then Inl RuntimeError
      else if training \<and> B * L = 1 then Inl ValueError
      else Inr (B, 32, L))"
  by (simp add: KanResModule_def Conv1d_def BatchNorm1d_def ReLU_def tensor_add_def
      broadcast_dim_def Let_def)

lemma chain_append:
  "chain (layers @ others) x = (case chain layers x of Inl e \<Rightarrow> Inl e | Inr y \<Rightarrow> chain others y)"
  by (induction layers arbitrary: x) (simp_all split: sum.splits)

lemma chain_replicate_fixed:
  assumes "f x = Inr x"
  shows "chain (replicate n f) x = Inr x"
  using assms by (induction n) simp_all

text \<open>
  Claim C7. Each of the eight residual blocks of the model returns, for a non-empty
  input with 32 channels, a tensor of the shape of its input (in training mode the
  batch normalisation needs more than one value per channel); and whenever a block
  returns at all, the shape of its output is the shape of its input, so that the sum
  \<open>out + identity\<close> adds tensors of one shape.
\<close>

theorem residual_block_preserves_shape:
  assumes m: "m \<in> set (res_modules training)"
    and B: "0 < B" and L: "0 < L" and bn: "\<not> (training \<and> B * L = 1)"
  shows "m (B, 32, L) = Inr (B, 32, L) \<and> (\<forall>x y. m x = Inr y \<longrightarrow> y = x) \<and>
         length (res_modules training) = 8"
proof -
  have m_eq: "m = KanResModule training 32 64 32 50 50 1"
    using m by (simp add: res_modules_def)
  have a: "m (B, 32, L) = Inr (B, 32, L)"
    using L bn KanResModule_model_block[of training B 32 L] by (simp add: m_eq)
  have b: "\<forall>x y. m x = Inr y \<longrightarrow> y = x"
  proof (intro allI impI)
    fix x y assume r: "m x = Inr y"
    obtain B' C' L' where x: "x = (B', C', L')" by (cases x) auto
    show "y = x"
      using r KanResModule_model_block[of training B' C' L'] unfolding x m_eq
      by (simp split: if_splits)
  qed
  have c: "length (res_modules training) = 8" by (simp add: res_modules_def)
  show ?thesis using a b c by blast
qed

theorem residual_block_preserves_shape_witness:
  "(res_modules False ! 3) (8, 32, 495) = Inr (8, 32, 495) \<and>
   (res_modules True ! 0) (1, 32, 2) = Inr (1, 32, 2)"
proof -
  have m: "res_modules False ! 3 \<in> set (res_modules False)"
    by (rule nth_mem) (simp add: res_modules_def)
  have m': "res_modules True ! 0 \<in> set (res_modules True)"
    by (rule nth_mem) (simp add: res_modules_def)
  show ?thesis
    using residual_block_preserves_shape[OF m, of 8 495]
      residual_block_preserves_shape[OF m', of 1 2] by simp
qed

lemma KanResInit_model_stem:
  assumes "10 \<le> L" "\<not> (training \<and> B * (L - 9) = 1)"
  shows "KanResInit training 1 64 32 8 3 1 (B, 1, L) = Inr (B, 32, L - 9)"
proof -
  have "B * (L - 7) \<noteq> 1" using assms(1) by auto
  moreover have "L - 7 - 3 + 1 = L - 9" "L - 8 + 1 = L - 7" using assms(1) by auto
  ultimately show ?thesis using assms
    by (simp add: KanResInit_def Conv1d_def BatchNorm1d_def ReLU_def)
qed

lemma run_modules_chain:
  "run_modules ops (x, applied) =
     (case chain (map snd ops) x of
        Inl e \<Rightarrow> Inl e
      | Inr y \<Rightarrow> Inr (y, applied @ map fst ops))"
proof (induction ops arbitrary: x applied)
  case Nil
  show ?case by simp
next
  case (Cons p ops)
  obtain name f where p: "p = (name, f)" by (cases p) auto
  show ?case
    unfolding p by (cases "f x") (simp_all add: Cons.IH split: sum.splits)
qed

lemma forward_ends_with_Linear:
  assumes "KanResWideX training input_channels output_size x = Inr (r, applied)"
  shows "applied \<noteq> [] \<and> last applied = Apply_Linear"
  using assms by (auto simp add: KanResWideX_def split: sum.splits prod.splits)

text \<open>
  Claim C8, as amended. For a batch of shape \<open>(batch, 1, window_length)\<close> with
  \<open>window_length \<ge> 11\<close> and, in training mode, more than one value per channel after
  the pooling (not both \<open>batch = 1\<close> and \<open>window_length \<le> 12\<close>), the forward pass
  returns a tensor of shape \<open>(batch, output_size)\<close> which is the output of the linear
  layer \<open>fc\<close>: the last operation applied is \<open>fc\<close>, with no activation after it. For
  every input on which the forward pass returns, what it returns is the output of \<open>fc\<close>.
\<close>

theorem forward_shape:
  assumes L: "11 \<le> L" and bn: "\<not> (training \<and> B = 1 \<and> L \<le> 12)"
  shows "KanResWideX training 1 output_size (B, 1, L) =
           Inr ([B, output_size],
                [Apply_KanResInit, Apply_AvgPool1d] @ replicate 8 Apply_KanResModule
                @ [Apply_AdaptiveAvgPool1d, Apply_squeeze, Apply_Linear]) \<and>
         (\<forall>c x r applied. KanResWideX training c output_size x = Inr (r, applied) \<longrightarrow>
              applied \<noteq> [] \<and> last applied = Apply_Linear)"
proof -
  let ?L3 = "(L - 9) div 2"
  let ?ops = "[(Apply_KanResInit, KanResInit training 1 64 32 8 3 1), (Apply_AvgPool1d, AvgPool1d 2)]
              @ map (\<lambda>res_module. (Apply_KanResModule, res_module)) (res_modules training)
              @ [(Apply_AdaptiveAvgPool1d, AdaptiveAvgPool1d 1)]"
  have L3: "0 < ?L3" using L by auto
  have bn2: "\<not> (training \<and> B * (L - 9) = 1)" using L by auto
  have stem: "KanResInit training 1 64 32 8 3 1 (B, 1, L) = Inr (B, 32, L - 9)"
    using KanResInit_model_stem[OF _ bn2] L by simp
  have "(L - 9 - 2) div 2 + 1 = ?L3" using L by auto
  then have pool: "AvgPool1d 2 (B, 32, L - 9) = Inr (B, 32, ?L3)"
    using L by (simp add: AvgPool1d_def)
  have one: "B * ?L3 = 1 \<Longrightarrow> B = 1 \<and> L \<le> 12" using L by auto
  then have nb: "\<not> (training \<and> B * ?L3 = 1)" using bn by blast
  have blk: "KanResModule training 32 64 32 50 50 1 (B, 32, ?L3) = Inr (B, 32, ?L3)"
    using L3 nb KanResModule_model_block[of training B 32 ?L3] by simp
  have blocks: "chain (res_modules training) (B, 32, ?L3) = Inr (B, 32, ?L3)"
    unfolding res_modules_def using blk by (rule chain_replicate_fixed)
  have gp: "AdaptiveAvgPool1d 1 (B, 32, ?L3) = Inr (B, 32, 1)"
    using L3 by (simp add: AdaptiveAvgPool1d_def)
  have feat: "chain ([KanResInit training 1 64 32 8 3 1, AvgPool1d 2] @ res_modules training
                @ [AdaptiveAvgPool1d 1]) (B, 1, L) = Inr (B, 32, 1)"
    using stem pool blocks gp by (simp add: chain_append)
  have fns: "map snd ?ops = [KanResInit training 1 64 32 8 3 1, AvgPool1d 2] @ res_modules training
                @ [AdaptiveAvgPool1d 1]"
    by (simp add: comp_def)
  have names: "map fst ?ops = [Apply_KanResInit, Apply_AvgPool1d] @ replicate 8 Apply_KanResModule
                @ [Apply_AdaptiveAvgPool1d]"
    by (simp add: comp_def res_modules_def)
  have run: "run_modules ?ops ((B, 1, L), []) =
      Inr ((B, 32, 1), [Apply_KanResInit, Apply_AvgPool1d] @ replicate 8 Apply_KanResModule
                @ [Apply_AdaptiveAvgPool1d])"
    unfolding run_modules_chain fns names using feat by simp
  have fc: "Linear 32 output_size (squeeze_last (B, 32, 1)) = Inr [B, output_size]"
    by (simp add: squeeze_last_def Linear_def)
  have shape: "KanResWideX training 1 output_size (B, 1, L) =
           Inr ([B, output_size],
                [Apply_KanResInit, Apply_AvgPool1d] @ replicate 8 Apply_KanResModule
                @ [Apply_AdaptiveAvgPool1d, Apply_squeeze, Apply_Linear])"
    using run fc by (simp add: KanResWideX_def)
  show ?thesis using shape forward_ends_with_Linear by blast
qed

theorem forward_shape_witness:
  "KanResWideX False 1 4 (8, 1, 1000) =
     Inr ([8, 4],
          [Apply_KanResInit, Apply_AvgPool1d] @ replicate 8 Apply_KanResModule
          @ [Apply_AdaptiveAvgPool1d, Apply_squeeze, Apply_Linear]) \<and>
   KanResWideX True 1 4 (2, 1, 11) =
     Inr ([2, 4],
          [Apply_KanResInit, Apply_AvgPool1d] @ replicate 8 Apply_KanResModule
          @ [Apply_AdaptiveAvgPool1d, Apply_squeeze, Apply_Linear]) \<and>
   KanResWideX True 1 4 (0, 1, 11) =
     Inr ([0, 4],
          [Apply_KanResInit, Apply_AvgPool1d] @ replicate 8 Apply_KanResModule
          @ [Apply_AdaptiveAvgPool1d, Apply_squeeze, Apply_Linear])"
  using forward_shape[of 1000 False 8 4] forward_shape[of 11 True 2 4]
    forward_shape[of 11 True 0 4] by simp

text \<open>
  A window of length 10 is long enough for the stem, whose output then has length 1,
  but the pooling that follows raises; and in training mode a batch of one window of
  length 11 reaches the first residual block with a single value per channel, where
  the batch normalisation raises.
\<close>

theorem forward_short_window_counterexample:
  "KanResInit False 1 64 32 8 3 1 (1, 1, 10) = Inr (1, 32, 1) \<and>
   KanResWideX False 1 4 (1, 1, 10) = Inl RuntimeError \<and>
   KanResWideX True 1 4 (1, 1, 11) = Inl ValueError"
  by (simp add: KanResWideX_def KanResInit_def Conv1d_def BatchNorm1d_def ReLU_def AvgPool1d_def
      res_modules_def KanResModule_def Let_def eval_nat_numeral)


section \<open>Properties of the per-split processing\<close>


lemma process_record_appends:
  "process_record env data_path W S r (aw, al, out) =
     (case process_record env data_path W S r ([], [], []) of
        (a, b, m) \<Rightarrow> (aw @ a, al @ b, out @ m))"
  by (simp add: process_record_def Let_def split: sum.splits option.splits prod.splits)

lemma fold_process_record_appends:
  "fold (process_record env data_path W S) rs (aw, al, out) =
     (case fold (process_record env data_path W S) rs ([], [], []) of
        (a, b, m) \<Rightarrow> (aw @ a, al @ b, out @ m))"
proof (induction rs arbitrary: aw al out)
  case Nil
  show ?case by simp
next
  case (Cons r rs)
  obtain a b m where step: "process_record env data_path W S r ([], [], []) = (a, b, m)"
    by (cases "process_record env data_path W S r ([], [], [])") auto
  obtain a' b' m' where rest: "fold (process_record env data_path W S) rs ([], [], []) = (a', b', m')"
    by (cases "fold (process_record env data_path W S) rs ([], [], [])") auto
  have "fold (process_record env data_path W S) (r # rs) (aw, al, out) =
        fold (process_record env data_path W S) rs (aw @ a, al @ b, out @ m)"
    using process_record_appends[of env data_path W S r aw al out] step by simp
  also have "\<dots> = ((aw @ a) @ a', (al @ b) @ b', (out @ m) @ m')"
    using Cons.IH[of "aw @ a" "al @ b" "out @ m"] rest by simp
  finally have lhs: "fold (process_record env data_path W S) (r # rs) (aw, al, out) =
        (aw @ a @ a', al @ b @ b', out @ m @ m')" by simp
  have "fold (process_record env data_path W S) (r # rs) ([], [], []) =
        fold (process_record env data_path W S) rs (a, b, m)"
    using step by simp
  also have "\<dots> = (a @ a', b @ b', m @ m')"
    using Cons.IH[of a b m] rest by simp
  finally show ?case using lhs by simp
qed

lemma process_record_skip:
  assumes "load_record env data_path r (Some [0]) = Inl e \<or>
           (\<exists>d. load_record env data_path r (Some [0]) = Inr d \<and> rhythm_labels d = None)"
  shows "process_record env data_path W S r (aw, al, out) =
           (aw, al, out @ (case load_record env data_path r (Some [0]) of
                              Inl e \<Rightarrow> [ErrorWith r e] | Inr d \<Rightarrow> []))"
  using assms by (auto simp add: process_record_def Let_def)

text \<open>
  Claim C4, as amended. A record whose load raises, or whose \<open>rhythm_labels\<close> is
  \<open>None\<close>, is skipped without aborting: the arrays returned by \<open>process_records\<close>
  (and whether the final stacking raises) are those of the list without that record.
  The lines printed are those of the records before it, then the line
  \<open>Error with {record}: {e}\<close> if its load raised and no line if its labels are
  \<open>None\<close>, then those of the records after it.
\<close>

theorem skipped_records_do_not_abort:
  assumes skip: "load_record env data_path r (Some [0]) = Inl e \<or>
           (\<exists>d. load_record env data_path r (Some [0]) = Inr d \<and> rhythm_labels d = None)"
  shows "snd (process_records env data_path W S (rs1 @ r # rs2)) =
           snd (process_records env data_path W S (rs1 @ rs2)) \<and>
         fst (process_records env data_path W S (rs1 @ r # rs2)) =
           fst (process_records env data_path W S rs1)
           @ (case load_record env data_path r (Some [0]) of
                Inl e \<Rightarrow> [ErrorWith r e] | Inr d \<Rightarrow> [])
           @ fst (process_records env data_path W S rs2)"
proof -
  let ?f = "process_record env data_path W S"
  let ?line = "case load_record env data_path r (Some [0]) of
                 Inl e \<Rightarrow> [ErrorWith r e] | Inr d \<Rightarrow> []"
  obtain a1 b1 m1 where one: "fold ?f rs1 ([], [], []) = (a1, b1, m1)"
    by (cases "fold ?f rs1 ([], [], [])") auto
  obtain a2 b2 m2 where two: "fold ?f rs2 ([], [], []) = (a2, b2, m2)"
    by (cases "fold ?f rs2 ([], [], [])") auto
  have with_r: "fold ?f (rs1 @ r # rs2) ([], [], []) = (a1 @ a2, b1 @ b2, m1 @ ?line @ m2)"
    using one two process_record_skip[OF skip, of W S a1 b1 m1]
      fold_process_record_appends[of env data_path W S rs2 a1 b1 "m1 @ ?line"]
    by simp
  have without_r: "fold ?f (rs1 @ rs2) ([], [], []) = (a1 @ a2, b1 @ b2, m1 @ m2)"
    using one two fold_process_record_appends[of env data_path W S rs2 a1 b1 m1] by simp
  show ?thesis
    using with_r without_r one two by (simp add: process_records_def)
qed


lemma mixed_load_04043:
  "load_record mixed_env ''files'' ''04043'' (Some [0]) = Inl (Failure ''No such file'')"
  by (simp add: load_record_def mixed_env_def)

lemma mixed_load_04048:
  "load_record mixed_env ''files'' ''04048'' (Some [0]) =
     Inr \<lparr>record_name = ''04048'', signal = [5, 6, 7, 8], fs = 250, sig_len = 4,
          duration = 4 / 250, rhythm_labels = None\<rparr>"
  by (simp add: load_record_def mixed_env_def)

theorem skipped_records_do_not_abort_witness:
  "snd (process_records mixed_env ''files'' 2 2 [''04015'', ''04043'', ''04015'']) =
     snd (process_records mixed_env ''files'' 2 2 [''04015'', ''04015'']) \<and>
   fst (process_records mixed_env ''files'' 2 2 [''04015'', ''04043'', ''04015'']) =
     fst (process_records mixed_env ''files'' 2 2 [''04015''])
     @ [ErrorWith ''04043'' (Failure ''No such file'')]
     @ fst (process_records mixed_env ''files'' 2 2 [''04015'']) \<and>
   snd (process_records mixed_env ''files'' 2 2 [''04015'', ''04048'', ''04015'']) =
     snd (process_records mixed_env ''files'' 2 2 [''04015'', ''04015'']) \<and>
   fst (process_records mixed_env ''files'' 2 2 [''04015'', ''04048'', ''04015'']) =
     fst (process_records mixed_env ''files'' 2 2 [''04015''])
     @ fst (process_records mixed_env ''files'' 2 2 [''04015''])"
  using skipped_records_do_not_abort[of mixed_env "''files''" "''04043''" "Failure ''No such file''"
      2 2 "[''04015'']" "[''04015'']"]
    skipped_records_do_not_abort[of mixed_env "''files''" "''04048''" "Failure ''No such file''"
      2 2 "[''04015'']" "[''04015'']"]
  by (simp add: mixed_load_04043 mixed_load_04048)

text \<open>
  A record that loads with \<open>rhythm_labels = None\<close> is skipped by \<open>continue\<close>:
  nothing is printed for it.
\<close>

theorem silent_skip_counterexample:
  "load_record mixed_env ''files'' ''04048'' (Some [0]) =
     Inr \<lparr>record_name = ''04048'', signal = [5, 6, 7, 8], fs = 250, sig_len = 4,
          duration = 4 / 250, rhythm_labels = None\<rparr> \<and>
   process_records mixed_env ''files'' 2 2 [''04048''] = ([], Inr ([], []))"
  by (simp add: process_records_def process_record_def mixed_load_04048)


section \<open>Properties of the list of usable records\<close>

lemma sort_mset_cong:
  fixes xs ys :: "'a::linorder list"
  assumes "mset xs = mset ys"
  shows "sort xs = sort ys"
proof (rule properties_for_sort)
  show "mset (sort ys) = mset xs" using assms by simp
  show "sorted (sort ys)" by simp
qed

lemma get_records_listing_order:
  assumes "mset (listdir env1 data_path) = mset (listdir env2 data_path)"
  shows "get_records env1 data_path = get_records env2 data_path"
proof -
  let ?keep = "\<lambda>ls. map stem (filter (\<lambda>f. \<not> endswith (stem f) ''-'')
                         (filter (\<lambda>f. endswith f ''.hea'') ls))"
  have "mset (?keep (listdir env1 data_path)) = mset (?keep (listdir env2 data_path))"
    using assms by (simp only: mset_map mset_filter)
  then show ?thesis
    unfolding get_records_def glob_hea_def by (rule sort_mset_cong)
qed

text \<open>
  The list that \<open>build_datasets\<close> hands to \<open>train_test_split\<close> is sorted and does not
  depend on the order in which the operating system lists the directory.
\<close>

lemma usable_records_listing_order:
  assumes "mset (listdir env1 data_path) = mset (listdir env2 data_path)"
    and "joinpath env1 = joinpath env2"
    and "path_exists env1 = path_exists env2"
  shows "usable_records env1 data_path = usable_records env2 data_path \<and>
         sorted (usable_records env1 data_path)"
proof -
  have recs: "get_records env1 data_path = get_records env2 data_path"
    using assms(1) by (rule get_records_listing_order)
  have us: "usable_records env1 data_path = usable_records env2 data_path"
    using recs assms(2,3) by (simp add: usable_records_def)
  have srt: "sorted (usable_records env1 data_path)"
    by (simp add: usable_records_def get_records_def sorted_filter[where f = "\<lambda>x. x", simplified])
  show ?thesis using us srt by simp
qed

end
